theory Spec2Isabelle
  imports Main "HOL-Library.Sublist"
begin

section \<open>Strings of the Python source\<close>

text \<open>
  A Python \<open>str\<close> is modelled as a \<open>string\<close>; one \<open>char\<close> stands for one code point,
  so \<open>length\<close> is Python's \<open>len\<close> and \<open>take n\<close> is the slice \<open>[:n]\<close>.

  \<open>lower\<close> is \<open>str.lower()\<close> on the ASCII letters. The source only compares the
  lowered text with \<open>'true'\<close> and with \<open>''\<close>; no code point outside ASCII lowers to one
  of the letters t, r, u, e, and lowering never empties a text, so both comparisons come
  out as in Python.
\<close>

definition lower_table :: "(char \<times> char) list" where
  "lower_table = zip ''ABCDEFGHIJKLMNOPQRSTUVWXYZ'' ''abcdefghijklmnopqrstuvwxyz''"

definition lower_char :: "char \<Rightarrow> char" where
  "lower_char c = (case map_of lower_table c of Some l \<Rightarrow> l | None \<Rightarrow> c)"

definition lower :: "string \<Rightarrow> string" where
  "lower s = map lower_char s"

text \<open>\<open>sub in s\<close>: \<open>sub\<close> occurs in \<open>s\<close> as a contiguous run.\<close>

fun str_contains :: "string \<Rightarrow> string \<Rightarrow> bool" where
  "str_contains sub [] = (sub = [])"
| "str_contains sub (c # cs) = (prefix sub (c # cs) \<or> str_contains sub cs)"

text \<open>\<open>str(b)\<close> for a Python \<open>bool\<close>, as an f-string renders \<open>{bool(x)}\<close>.\<close>

definition str_of_bool :: "bool \<Rightarrow> string" where
  "str_of_bool b = (if b then ''True'' else ''False'')"

section \<open>Module state\<close>

text \<open>The three module globals of \<open>entry/main.py\<close> (lines 20--22).\<close>

record globals =
  MODELS_LOADED :: bool
  initialized :: bool
  initialization_error :: "string option"

definition initial_globals :: globals where
  "initial_globals =
     \<lparr>MODELS_LOADED = False, initialized = False, initialization_error = None\<rparr>"

text \<open>
  What \<open>get_models()\<close>, \<open>get_pipelines()\<close> and \<open>get_voices()\<close> of \<open>entry.core.models\<close>
  return. The source tests each collection for emptiness, takes its \<open>len\<close> and lists its
  keys, so each one is represented by the list of its keys (its members, for the voices).
\<close>

record registry =
  models :: "string list"
  pipelines :: "string list"
  voices :: "string list"

definition empty_registry :: registry where
  "empty_registry = \<lparr>models = [], pipelines = [], voices = []\<rparr>"

section \<open>Environment detection (lines 62--68)\<close>

text \<open>
  The facts the worker reads: the two environment variables (\<open>None\<close> when unset) and
  whether \<open>os.path.join(os.getcwd(), 'models', 'Kokoro-82M')\<close> exists.
\<close>

record environ =
  CONTAINER_ENV :: "string option"
  K_SERVICE :: "string option"
  models_dir_exists :: bool

text \<open>\<open>os.environ.get(name, '')\<close>.\<close>

definition environ_get :: "string option \<Rightarrow> string" where
  "environ_get v = (case v of None \<Rightarrow> [] | Some s \<Rightarrow> s)"

definition force_online :: "environ \<Rightarrow> bool" where
  "force_online E =
     (if lower (environ_get (CONTAINER_ENV E)) = ''true''
         \<or> lower (environ_get (K_SERVICE E)) \<noteq> []
      then \<not> models_dir_exists E
      else False)"

text \<open>
  The spellings of \<open>true\<close> in any mix of upper and lower case: what "equals \<open>"true"\<close>,
  case-insensitive" means, stated without \<open>lower\<close>.
\<close>

definition true_spellings :: "string set" where
  "true_spellings =
     {[a, b, c, d] | a b c d.
        (a = CHR ''t'' \<or> a = CHR ''T'') \<and> (b = CHR ''r'' \<or> b = CHR ''R'') \<and>
        (c = CHR ''u'' \<or> c = CHR ''U'') \<and> (d = CHR ''e'' \<or> d = CHR ''E'')}"

section \<open>The background worker and the lock\<close>

text \<open>
  \<open>initialize_models(force_online=...)\<close> is code of another module. It either raises an
  exception \<open>e\<close> (kept as \<open>str(e)\<close>) or returns, after which the accessors return the
  loaded collections. Only what \<open>except Exception\<close> of line 88 catches is modelled: a
  \<open>SystemExit\<close> or \<open>KeyboardInterrupt\<close> would end the thread with no write at all.
\<close>

datatype load_outcome = Raises string | Loaded registry

text \<open>
  The program points of \<open>init_models_thread\<close> (lines 57--94). A thread at \<open>W_acquire\<close> is
  about to enter \<open>with model_init_lock\<close>; \<open>W_raise m\<close> is an exception with message \<open>m\<close>
  leaving the \<open>with\<close> block, which releases the lock before the handler of line 88 runs.
\<close>

datatype wpc =
    W_acquire
  | W_detect
  | W_load bool
  | W_validate
  | W_set_loaded
  | W_set_initialized
  | W_clear_error
  | W_release
  | W_raise string
  | W_set_error string
  | W_unset_loaded
  | W_unset_initialized
  | W_done

text \<open>
  The whole process: the globals, the registry of \<open>entry.core.models\<close>, the owner of
  \<open>model_init_lock\<close> (the index of a worker thread) and the program point of every thread
  started by \<open>startup_event\<close>, in the order they were started. The lock is an \<open>RLock\<close>, but
  no thread enters a second \<open>with\<close> block while it is inside one, so an owner is enough.
\<close>

record system =
  globs :: globals
  reg :: registry
  lock_owner :: "nat option"
  threads :: "wpc list"

definition initial_system :: system where
  "initial_system =
     \<lparr>globs = initial_globals, reg = empty_registry, lock_owner = None, threads = []\<rparr>"

text \<open>The message of the \<open>RuntimeError\<close> of line 82.\<close>

definition missing_message :: "registry \<Rightarrow> string" where
  "missing_message r =
     ''Critical components missing after initialization: models=''
       @ str_of_bool (models r \<noteq> [])
       @ '', pipelines='' @ str_of_bool (pipelines r \<noteq> [])
       @ '', voices='' @ str_of_bool (voices r \<noteq> [])"

text \<open>
  One atomic action of worker thread \<open>i\<close> at program point \<open>pc\<close>: the next program point and
  the system after it. A worker that finds the lock taken stays at \<open>W_acquire\<close>.
\<close>

fun worker_action ::
  "environ \<Rightarrow> (bool \<Rightarrow> load_outcome) \<Rightarrow> nat \<Rightarrow> wpc \<Rightarrow> system \<Rightarrow> wpc \<times> system" where
  "worker_action E ld i W_acquire s =
     (if lock_owner s = None then (W_detect, s\<lparr>lock_owner := Some i\<rparr>) else (W_acquire, s))"
| "worker_action E ld i W_detect s = (W_load (force_online E), s)"
| "worker_action E ld i (W_load fo) s =
     (case ld fo of
        Raises m \<Rightarrow> (W_raise m, s)
      | Loaded r \<Rightarrow> (W_validate, s\<lparr>reg := r\<rparr>))"
| "worker_action E ld i W_validate s =
     (if models (reg s) = [] \<or> pipelines (reg s) = [] \<or> voices (reg s) = []
      then (W_raise (missing_message (reg s)), s)
      else (W_set_loaded, s))"
| "worker_action E ld i W_set_loaded s =
     (W_set_initialized, s\<lparr>globs := (globs s)\<lparr>MODELS_LOADED := True\<rparr>\<rparr>)"
| "worker_action E ld i W_set_initialized s =
     (W_clear_error, s\<lparr>globs := (globs s)\<lparr>initialized := True\<rparr>\<rparr>)"
| "worker_action E ld i W_clear_error s =
     (W_release, s\<lparr>globs := (globs s)\<lparr>initialization_error := None\<rparr>\<rparr>)"
| "worker_action E ld i W_release s = (W_done, s\<lparr>lock_owner := None\<rparr>)"
| "worker_action E ld i (W_raise m) s = (W_set_error m, s\<lparr>lock_owner := None\<rparr>)"
| "worker_action E ld i (W_set_error m) s =
     (W_unset_loaded, s\<lparr>globs := (globs s)\<lparr>initialization_error := Some m\<rparr>\<rparr>)"
| "worker_action E ld i W_unset_loaded s =
     (W_unset_initialized, s\<lparr>globs := (globs s)\<lparr>MODELS_LOADED := False\<rparr>\<rparr>)"
| "worker_action E ld i W_unset_initialized s =
     (W_done, s\<lparr>globs := (globs s)\<lparr>initialized := False\<rparr>\<rparr>)"
| "worker_action E ld i W_done s = (W_done, s)"

definition worker_step ::
  "environ \<Rightarrow> (nat \<Rightarrow> bool \<Rightarrow> load_outcome) \<Rightarrow> nat \<Rightarrow> system \<Rightarrow> system" where
  "worker_step E L i s =
     (if i < length (threads s)
      then (case worker_action E (L i) i (threads s ! i) s of
              (pc, s') \<Rightarrow> s'\<lparr>threads := (threads s')[i := pc]\<rparr>)
      else s)"

text \<open>
  \<open>startup_event\<close> (lines 48--99): it defines the worker and starts a new daemon thread that
  runs it. Nothing in it reads or writes the globals.
\<close>

definition startup_event :: "system \<Rightarrow> system" where
  "startup_event s = s\<lparr>threads := threads s @ [W_acquire]\<rparr>"

section \<open>Request handling\<close>

datatype jval = JStr string | JList "string list"

type_synonym json = "(string \<times> jval) list"

text \<open>
  In the handlers, \<open>if initialization_error:\<close> is Python truthiness: \<open>None\<close> and the empty
  text are both false.
\<close>

text \<open>\<open>health_check\<close> (lines 102--109); the status code is the default 200.\<close>

definition health_check :: "globals \<Rightarrow> registry \<Rightarrow> nat \<times> json" where
  "health_check g r =
     (case initialization_error g of
        Some e \<Rightarrow>
          if e \<noteq> [] then (200, [(''status'', JStr ''error''), (''error'', JStr e)])
          else if \<not> initialized g then (200, [(''status'', JStr ''initializing'')])
          else (200, [(''status'', JStr ''healthy''), (''voices'', JList (voices r))])
      | None \<Rightarrow>
          if \<not> initialized g then (200, [(''status'', JStr ''initializing'')])
          else (200, [(''status'', JStr ''healthy''), (''voices'', JList (voices r))]))"

text \<open>\<open>readiness_check\<close> (lines 111--120).\<close>

definition readiness_check :: "globals \<Rightarrow> nat \<times> json" where
  "readiness_check g =
     (case initialization_error g of
        Some e \<Rightarrow>
          if e \<noteq> [] then (503, [(''status'', JStr ''error''), (''error'', JStr e)])
          else if \<not> initialized g
            then (503, [(''status'', JStr ''loading''), (''message'', JStr ''Models are still loading'')])
          else (200, [(''status'', JStr ''ready''), (''message'', JStr ''Models loaded and ready'')])
      | None \<Rightarrow>
          if \<not> initialized g
            then (503, [(''status'', JStr ''loading''), (''message'', JStr ''Models are still loading'')])
          else (200, [(''status'', JStr ''ready''), (''message'', JStr ''Models loaded and ready'')]))"

text \<open>\<open>root\<close> (lines 129--131).\<close>

definition root :: "nat \<times> json" where
  "root = (200, [(''message'',
      JStr ''Kokoro TTS API is running. Visit /docs for API documentation.'')])"

text \<open>The middleware \<open>check_initialization\<close> (lines 133--189).\<close>

datatype gate = Call_next | Raise_HTTPException nat string | Blocked

definition exempt_paths :: "string list" where
  "exempt_paths = [''/health'', ''/ready'', ''/docs'', ''/openapi.json'', ''/redoc'']"

definition compat_text :: string where
  "compat_text = ''PyTorch 2.6 compatibility issue with model loading. The model was created with an older PyTorch version. Please restart the application to retry with fallback loading options.''"

text \<open>
  The middleware runs on the event-loop thread. For a path outside the exempt list it enters
  \<open>with model_init_lock\<close>: while a worker owns the lock it waits there (\<open>Blocked\<close>);
  otherwise it reads the globals and the registry, which is modelled on one snapshot of
  the state.
\<close>

definition check_initialization :: "system \<Rightarrow> string \<Rightarrow> gate" where
  "check_initialization s path =
     (if path \<in> set exempt_paths then Call_next
      else if lock_owner s \<noteq> None then Blocked
      else if \<not> initialized (globs s) then
        (case initialization_error (globs s) of
           None \<Rightarrow> Raise_HTTPException 503 ''Service is still initializing''
         | Some e \<Rightarrow>
             if e = [] then Raise_HTTPException 503 ''Service is still initializing''
             else
               (let error_msg = e;
                    error_msg = (if str_contains ''weights_only'' error_msg
                                 then compat_text else error_msg);
                    error_msg = (if length error_msg > 200
                                 then take 197 error_msg @ ''...'' else error_msg)
                in Raise_HTTPException 503 (''Service unavailable: '' @ error_msg)))
      else if length (models (reg s)) = 0 \<or> length (voices (reg s)) = 0 then
        Raise_HTTPException 503 ''Model initialization incomplete - service not ready''
      else Call_next)"

text \<open>
  A GET request as this file handles it: the middleware first, then the route. When the
  middleware raises, no route is called and the \<open>HTTPException\<close> leaves the middleware; no
  handler of this file catches it, and what the server then sends to the client is the
  framework's doing, outside the model. The routes of the included routers and the
  documentation pages are code of other modules (\<open>Routed\<close>).
\<close>

datatype outcome =
    Http nat json
  | Unhandled_HTTPException nat string
  | Waiting_for_lock
  | Routed

definition get_request :: "system \<Rightarrow> string \<Rightarrow> outcome" where
  "get_request s path =
     (case check_initialization s path of
        Blocked \<Rightarrow> Waiting_for_lock
      | Raise_HTTPException code detail \<Rightarrow> Unhandled_HTTPException code detail
      | Call_next \<Rightarrow>
          if path = ''/health'' then
            (case health_check (globs s) (reg s) of (code, body) \<Rightarrow> Http code body)
          else if path = ''/ready'' then
            (case readiness_check (globs s) of (code, body) \<Rightarrow> Http code body)
          else if path = ''/'' then (case root of (code, body) \<Rightarrow> Http code body)
          else Routed)"

section \<open>Executions\<close>

text \<open>
  An execution is a schedule of events: a call of \<open>startup_event\<close>, one atomic action of
  worker thread \<open>i\<close>, or a GET request. The handlers and the middleware assign no global,
  so a request leaves the state as it is. \<open>L i\<close> is what \<open>initialize_models\<close> does when
  worker \<open>i\<close> calls it. A loader that never returns is a schedule that stops stepping the
  worker at \<open>W_load\<close>.
\<close>

datatype event = Startup | Work nat | Get string

fun step ::
  "environ \<Rightarrow> (nat \<Rightarrow> bool \<Rightarrow> load_outcome) \<Rightarrow> event \<Rightarrow> system \<Rightarrow> system" where
  "step E L Startup s = startup_event s"
| "step E L (Work i) s = worker_step E L i s"
| "step E L (Get path) s = s"

fun exec ::
  "environ \<Rightarrow> (nat \<Rightarrow> bool \<Rightarrow> load_outcome) \<Rightarrow> event list \<Rightarrow> system \<Rightarrow> system" where
  "exec E L [] s = s"
| "exec E L (e # es) s = exec E L es (step E L e s)"

text \<open>Every state an execution passes through, the first one included.\<close>

fun states ::
  "environ \<Rightarrow> (nat \<Rightarrow> bool \<Rightarrow> load_outcome) \<Rightarrow> event list \<Rightarrow> system \<Rightarrow> system list" where
  "states E L [] s = [s]"
| "states E L (e # es) s = s # states E L es (step E L e s)"

section \<open>Phases\<close>

text \<open>
  The source keeps no phase; this is the phase a state stands for. An error message is
  stored exactly in \<open>Failed\<close>; \<open>Loading\<close> is told from \<open>Uninitialized\<close> by a worker having been
  started.
\<close>

datatype phase = Uninitialized | Loading | Ready | Failed

definition phase_of :: "system \<Rightarrow> phase" where
  "phase_of s =
     (if initialization_error (globs s) \<noteq> None then Failed
      else if initialized (globs s) then Ready
      else if threads s = [] then Uninitialized
      else Loading)"

text \<open>The moves the specification allows a phase to make.\<close>

fun advances :: "phase \<Rightarrow> phase \<Rightarrow> bool" where
  "advances Uninitialized Loading = True"
| "advances Loading Ready = True"
| "advances Loading Failed = True"
| "advances _ _ = False"

text \<open>The program points at which a worker is inside \<open>with model_init_lock\<close>.\<close>

fun inside_lock :: "wpc \<Rightarrow> bool" where
  "inside_lock W_acquire = False"
| "inside_lock (W_set_error m) = False"
| "inside_lock W_unset_loaded = False"
| "inside_lock W_unset_initialized = False"
| "inside_lock W_done = False"
| "inside_lock _ = True"

section \<open>Invariants used in the proofs\<close>

text \<open>
  Mutual exclusion: a worker is inside the \<open>with\<close> block exactly when it owns the lock, and
  the owner is a thread that exists.
\<close>

definition lock_inv :: "system \<Rightarrow> bool" where
  "lock_inv s =
     ((\<forall>i < length (threads s). inside_lock (threads s ! i) = (lock_owner s = Some i))
      \<and> (\<forall>i. lock_owner s = Some i \<longrightarrow> i < length (threads s)))"

text \<open>What the flags hold while the only worker is at a given program point.\<close>

fun flags_at :: "wpc \<Rightarrow> globals \<Rightarrow> bool" where
  "flags_at W_clear_error g = (initialized g \<and> initialization_error g = None)"
| "flags_at W_release g = (initialized g \<and> initialization_error g = None)"
| "flags_at W_unset_loaded g = (\<not> initialized g \<and> initialization_error g \<noteq> None)"
| "flags_at W_unset_initialized g = (\<not> initialized g \<and> initialization_error g \<noteq> None)"
| "flags_at W_done g = (initialized g = (initialization_error g = None))"
| "flags_at _ g = (\<not> initialized g \<and> initialization_error g = None)"

definition single_inv :: "system \<Rightarrow> bool" where
  "single_inv s =
     (case threads s of
        [] \<Rightarrow> \<not> initialized (globs s) \<and> initialization_error (globs s) = None
      | pc # rest \<Rightarrow> rest = [] \<and> flags_at pc (globs s))"

text \<open>A list of phases in which every phase advances to the next one.\<close>

fun chain :: "phase list \<Rightarrow> bool" where
  "chain (p # q # ps) = (advances p q \<and> chain (q # ps))"
| "chain _ = True"

section \<open>Concrete runs\<close>

text \<open>No container variable is set and there is no local model directory.\<close>

definition bare_environ :: environ where
  "bare_environ = \<lparr>CONTAINER_ENV = None, K_SERVICE = None, models_dir_exists = False\<rparr>"

text \<open>
  One call of \<open>startup_event\<close>, then the worker alone: eight actions take it to \<open>W_done\<close> on
  its longest path (a worker at \<open>W_done\<close> does nothing more).
\<close>

definition single_run :: "event list" where
  "single_run = [Startup, Work 0, Work 0, Work 0, Work 0, Work 0, Work 0, Work 0, Work 0]"

text \<open>The state after the only worker's load raised an exception with message \<open>m\<close>.\<close>

definition failed_system :: "string \<Rightarrow> system" where
  "failed_system m = exec bare_environ (\<lambda>i fo. Raises m) single_run initial_system"

definition long_message :: string where
  "long_message = replicate 201 (CHR ''x'')"

definition weights_message :: string where
  "weights_message = ''Weights only load failed: set weights_only=False to load this file''"

definition no_voices :: registry where
  "no_voices = \<lparr>models = [''kokoro''], pipelines = [''a''], voices = []\<rparr>"

definition full_registry :: registry where
  "full_registry = \<lparr>models = [''kokoro''], pipelines = [''a''], voices = [''af_heart'']\<rparr>"

text \<open>Two calls of \<open>startup_event\<close>; the first worker runs to its end, then the second.\<close>

definition double_run :: "event list" where
  "double_run =
     [Startup, Startup,
      Work 0, Work 0, Work 0, Work 0, Work 0, Work 0, Work 0, Work 0,
      Work 1, Work 1, Work 1, Work 1, Work 1, Work 1, Work 1, Work 1]"

text \<open>A start and two actions of the worker: it has the lock and is about to call the loader.\<close>

definition loading_run :: "event list" where
  "loading_run = [Startup, Work 0, Work 0]"

text \<open>A start and four actions: the load has raised and the exception has left the \<open>with\<close> block.\<close>

definition raising_run :: "event list" where
  "raising_run = [Startup, Work 0, Work 0, Work 0, Work 0]"

text \<open>Requests before, during and after the only worker's run.\<close>

definition observed_run :: "event list" where
  "observed_run =
     [Get ''/ready'', Startup, Get ''/ready'', Work 0, Work 0, Work 0, Get ''/tts'', Work 0,
      Work 0, Work 0, Get ''/health'', Work 0, Work 0, Get ''/ready'']"




text \<open>The load of the first worker raises, every later one succeeds.\<close>

definition first_load_fails :: "nat \<Rightarrow> bool \<Rightarrow> load_outcome" where
  "first_load_fails i fo = (if i = 0 then Raises ''boom'' else Loaded full_registry)"

text \<open>The load of the first worker succeeds, every later one raises.\<close>

definition first_load_only :: "nat \<Rightarrow> bool \<Rightarrow> load_outcome" where
  "first_load_only i fo = (if i = 0 then Loaded full_registry else Raises ''boom'')"

section \<open>Environment detection\<close>

lemma lower_char_cases:
  "(lower_char c = CHR ''t'') = (c = CHR ''t'' \<or> c = CHR ''T'')"
  "(lower_char c = CHR ''r'') = (c = CHR ''r'' \<or> c = CHR ''R'')"
  "(lower_char c = CHR ''u'') = (c = CHR ''u'' \<or> c = CHR ''U'')"
  "(lower_char c = CHR ''e'') = (c = CHR ''e'' \<or> c = CHR ''E'')"
  by (auto simp: lower_char_def lower_table_def split: if_splits)

lemma lower_eq_true: "(lower s = ''true'') = (s \<in> true_spellings)"
proof -
  have "(lower s = ''true'') =
        (\<exists>a b c d. s = [a, b, c, d] \<and> lower_char a = CHR ''t'' \<and> lower_char b = CHR ''r''
           \<and> lower_char c = CHR ''u'' \<and> lower_char d = CHR ''e'')"
    by (auto simp: lower_def map_eq_Cons_conv)
  then show ?thesis
    by (simp add: lower_char_cases true_spellings_def)
qed

lemma lower_eq_Nil: "(lower s = []) = (s = [])"
  by (simp add: lower_def)

text \<open>
  Claim C7. \<open>force_online\<close> is true if and only if the variable \<open>CONTAINER_ENV\<close> is set to
  \<open>true\<close> in some mix of upper and lower case or the variable \<open>K_SERVICE\<close> is set to a
  non-empty text, and the local model directory does not exist; it is false in every other
  case, in particular when neither variable is set.
\<close>

theorem force_online_iff:
  "force_online E =
     (((\<exists>v. CONTAINER_ENV E = Some v \<and> v \<in> true_spellings)
       \<or> (\<exists>v. K_SERVICE E = Some v \<and> v \<noteq> []))
      \<and> \<not> models_dir_exists E)"
  by (cases "CONTAINER_ENV E"; cases "K_SERVICE E")
     (auto simp: force_online_def environ_get_def lower_eq_true lower_eq_Nil
        true_spellings_def)

text \<open>
  The two scenarios of the specification: nothing set and no directory gives false; the
  container variable \<open>true\<close> and no directory gives true.
\<close>

lemma force_online_bare: "force_online bare_environ = False"
  by (simp add: force_online_def bare_environ_def environ_get_def lower_def)

lemma force_online_container:
  "force_online \<lparr>CONTAINER_ENV = Some ''true'', K_SERVICE = None, models_dir_exists = False\<rparr>
     = True"
  by (simp add: force_online_def environ_get_def lower_def lower_char_def lower_table_def)

section \<open>The worker run to its end\<close>

lemma failed_system_eq:
  "failed_system m =
     \<lparr>globs = \<lparr>MODELS_LOADED = False, initialized = False, initialization_error = Some m\<rparr>,
      reg = empty_registry, lock_owner = None, threads = [W_done]\<rparr>"
  by (simp add: failed_system_def single_run_def initial_system_def initial_globals_def
      startup_event_def worker_step_def)

lemma single_run_loader_raises:
  assumes "L 0 (force_online E) = Raises m"
  shows "exec E L single_run initial_system = failed_system m"
  using assms
  by (simp add: failed_system_eq single_run_def initial_system_def initial_globals_def
      startup_event_def worker_step_def)

lemma single_run_loaded:
  assumes "L 0 (force_online E) = Loaded r"
  shows "exec E L single_run initial_system =
     (if models r = [] \<or> pipelines r = [] \<or> voices r = []
      then (failed_system (missing_message r))\<lparr>reg := r\<rparr>
      else \<lparr>globs = \<lparr>MODELS_LOADED = True, initialized = True, initialization_error = None\<rparr>,
            reg = r, lock_owner = None, threads = [W_done]\<rparr>)"
  using assms
  by (simp add: failed_system_eq single_run_def initial_system_def initial_globals_def
      startup_event_def worker_step_def)

text \<open>
  Claim C4, as the code has it. When the load returns with models and pipelines but no
  voices, the worker ends with both flags false and the message
  \<open>Critical components missing after initialization: models=True, pipelines=True, voices=False\<close>
  stored: the booleans are rendered as Python renders them, with a capital letter.
\<close>

theorem worker_missing_voices:
  assumes "L 0 (force_online E) = Loaded r"
    and "models r \<noteq> []" and "pipelines r \<noteq> []" and "voices r = []"
  shows "globs (exec E L single_run initial_system) =
           \<lparr>MODELS_LOADED = False, initialized = False, initialization_error = Some
             ''Critical components missing after initialization: models=True, pipelines=True, voices=False''\<rparr>
         \<and> phase_of (exec E L single_run initial_system) = Failed
         \<and> threads (exec E L single_run initial_system) = [W_done]"
  using assms
  by (simp add: single_run_loaded failed_system_eq missing_message_def str_of_bool_def
      phase_of_def)

theorem worker_missing_voices_witness:
  "globs (exec bare_environ (\<lambda>i fo. Loaded no_voices) single_run initial_system) =
           \<lparr>MODELS_LOADED = False, initialized = False, initialization_error = Some
             ''Critical components missing after initialization: models=True, pipelines=True, voices=False''\<rparr>
         \<and> phase_of (exec bare_environ (\<lambda>i fo. Loaded no_voices) single_run initial_system) = Failed
         \<and> threads (exec bare_environ (\<lambda>i fo. Loaded no_voices) single_run initial_system) = [W_done]"
  using worker_missing_voices [of "\<lambda>i fo. Loaded no_voices" bare_environ no_voices]
  by (simp add: no_voices_def)

text \<open>
  Claim C4, as the specification words it, fails: with models and pipelines loaded and no
  voices, the stored message is not the one with \<open>true\<close> and \<open>false\<close> in lower case.
\<close>

theorem worker_missing_voices_counterexample:
  "initialization_error
     (globs (exec bare_environ (\<lambda>i fo. Loaded no_voices) single_run initial_system))
   \<noteq> Some ''Critical components missing after initialization: models=true, pipelines=true, voices=false''"
  by (simp add: single_run_loaded failed_system_eq no_voices_def missing_message_def
      str_of_bool_def)

section \<open>The gate's error text\<close>


text \<open>\<open>str_contains\<close> is the substring relation.\<close>

lemma str_contains_iff: "str_contains sub s = (\<exists>p q. s = p @ sub @ q)"
proof (induction s)
  case Nil
  then show ?case by auto
next
  case (Cons c cs)
  show ?case
  proof
    assume "str_contains sub (c # cs)"
    then consider "prefix sub (c # cs)" | "str_contains sub cs" by auto
    then show "\<exists>p q. c # cs = p @ sub @ q"
    proof cases
      case 1
      then obtain q where "c # cs = sub @ q" by (auto simp: prefix_def)
      then have "c # cs = [] @ sub @ q" by simp
      then show ?thesis by blast
    next
      case 2
      with Cons.IH obtain p q where "cs = p @ sub @ q" by blast
      then have "c # cs = (c # p) @ sub @ q" by simp
      then show ?thesis by blast
    qed
  next
    assume "\<exists>p q. c # cs = p @ sub @ q"
    then obtain p q where pq: "c # cs = p @ sub @ q" by blast
    show "str_contains sub (c # cs)"
    proof (cases p)
      case Nil
      with pq have "prefix sub (c # cs)" by (simp add: prefix_def)
      then show ?thesis by simp
    next
      case (Cons a p')
      with pq have "cs = p' @ sub @ q" by simp
      with Cons.IH show ?thesis by auto
    qed
  qed
qed



lemma long_message_nonempty: "long_message \<noteq> []"
  by (simp add: long_message_def)








section \<open>The root path and the probes\<close>

text \<open>
  Claim C5, as the code has it. The root path is not in the exempt list, so the middleware
  gates it like any other path. The middleware calls the next handler for \<open>GET /\<close>, which
  then answers 200 with the static message, exactly when no worker owns the lock,
  \<open>initialized\<close> is set and the models and the voices are non-empty. While a worker owns the
  lock the middleware waits for it. In every other state it raises an \<open>HTTPException\<close> with
  status code 503 and the root handler is not called.
\<close>

theorem root_is_gated:
  "''/'' \<notin> set exempt_paths
   \<and> (get_request s ''/'' = Http 200 [(''message'',
          JStr ''Kokoro TTS API is running. Visit /docs for API documentation.'')])
       = (lock_owner s = None \<and> initialized (globs s)
            \<and> models (reg s) \<noteq> [] \<and> voices (reg s) \<noteq> [])
   \<and> (check_initialization s ''/'' = Call_next)
       = (lock_owner s = None \<and> initialized (globs s)
            \<and> models (reg s) \<noteq> [] \<and> voices (reg s) \<noteq> [])
   \<and> (check_initialization s ''/'' = Blocked) = (lock_owner s \<noteq> None)
   \<and> (\<exists>detail. check_initialization s ''/'' = Raise_HTTPException 503 detail)
       = (lock_owner s = None
            \<and> \<not> (initialized (globs s) \<and> models (reg s) \<noteq> [] \<and> voices (reg s) \<noteq> []))"
  by (auto simp: get_request_def check_initialization_def exempt_paths_def root_def Let_def
      split: option.splits)

text \<open>
  Claim C5, as the specification words it, fails: before the start, while loading and
  after a failed load, the middleware does not let \<open>GET /\<close> through: it consults the state
  and raises an \<open>HTTPException\<close> with status code 503, and the root handler never runs.
\<close>

theorem root_is_gated_counterexample:
  "check_initialization initial_system ''/''
       = Raise_HTTPException 503 ''Service is still initializing''
   \<and> get_request initial_system ''/''
       = Unhandled_HTTPException 503 ''Service is still initializing''
   \<and> phase_of initial_system = Uninitialized
   \<and> check_initialization (startup_event initial_system) ''/''
       = Raise_HTTPException 503 ''Service is still initializing''
   \<and> phase_of (startup_event initial_system) = Loading
   \<and> check_initialization (failed_system ''boom'') ''/''
       = Raise_HTTPException 503 ''Service unavailable: boom''
   \<and> phase_of (failed_system ''boom'') = Failed"
  by (simp add: get_request_def check_initialization_def exempt_paths_def failed_system_eq
      initial_system_def initial_globals_def startup_event_def phase_of_def Let_def)

text \<open>
  Claim C8 at a load that raised an exception with an empty message. The worker stores the
  empty text, so the state is \<open>Failed\<close> with that message; \<open>readiness_check\<close> tests the
  message for truth, takes the empty text for no error and answers 503 with the
  \<open>loading\<close> body, not the \<open>error\<close> body.
\<close>

theorem readiness_empty_message:
  "exec bare_environ (\<lambda>i fo. Raises []) single_run initial_system = failed_system []
   \<and> initialization_error (globs (failed_system [])) = Some []
   \<and> phase_of (failed_system []) = Failed
   \<and> readiness_check (globs (failed_system []))
       = (503, [(''status'', JStr ''loading''), (''message'', JStr ''Models are still loading'')])"
  by (simp add: failed_system_def [symmetric] failed_system_eq phase_of_def readiness_check_def)

text \<open>
  Claim C10 at the same state. With the empty text stored as the error message, \<open>/health\<close>
  answers \<open>initializing\<close> and \<open>/ready\<close> answers \<open>loading\<close>: neither returns the stored
  message in an \<open>error\<close> field.
\<close>

theorem probes_empty_message:
  "initialization_error (globs (failed_system [])) = Some []
   \<and> health_check (globs (failed_system [])) (reg (failed_system []))
       = (200, [(''status'', JStr ''initializing'')])
   \<and> get_request (failed_system []) ''/health'' = Http 200 [(''status'', JStr ''initializing'')]
   \<and> get_request (failed_system []) ''/ready''
       = Http 503 [(''status'', JStr ''loading''), (''message'', JStr ''Models are still loading'')]"
  by (simp add: failed_system_eq health_check_def readiness_check_def get_request_def
      check_initialization_def exempt_paths_def)

section \<open>Starting the worker\<close>











section \<open>The lock\<close>

lemma lock_inv_initial: "lock_inv initial_system"
  by (simp add: lock_inv_def initial_system_def)

lemma lock_inv_startup: "lock_inv s \<Longrightarrow> lock_inv (startup_event s)"
  by (auto simp: lock_inv_def startup_event_def nth_append)

lemma lock_inv_worker:
  assumes "lock_inv s"
  shows "lock_inv (worker_step E L i s)"
proof (cases "i < length (threads s)")
  case False
  then show ?thesis using assms by (simp add: worker_step_def)
next
  case True
  with assms have own: "inside_lock (threads s ! i) = (lock_owner s = Some i)"
    by (simp add: lock_inv_def)
  show ?thesis
    using assms True own
    by (cases "threads s ! i")
       (auto simp: lock_inv_def worker_step_def nth_list_update split: load_outcome.splits)
qed

lemma lock_inv_step: "lock_inv s \<Longrightarrow> lock_inv (step E L e s)"
  by (cases e) (simp_all add: lock_inv_startup lock_inv_worker)

lemma lock_inv_exec: "lock_inv s \<Longrightarrow> lock_inv (exec E L evs s)"
  by (induction evs arbitrary: s) (simp_all add: lock_inv_step)

lemma blocked_iff:
  "(check_initialization s path = Blocked) = (path \<notin> set exempt_paths \<and> lock_owner s \<noteq> None)"
  by (simp add: check_initialization_def Let_def split: option.splits)

lemma loading_run_eq:
  "exec bare_environ L loading_run initial_system =
     initial_system\<lparr>lock_owner := Some 0, threads := [W_load False]\<rparr>"
  by (simp add: loading_run_def initial_system_def startup_event_def worker_step_def
      force_online_def bare_environ_def environ_get_def lower_def)

text \<open>
  Claim C2, as the code has it. In every state of every execution, a worker is inside
  \<open>with model_init_lock\<close> exactly when it owns the lock: it owns it during the environment
  detection, the load, the validation and the writes of the success branch, and it does
  not own it when it writes the error message in the failure branch. A request outside the
  exempt list waits for the lock exactly when a worker owns it; a request on an exempt path
  never waits.
\<close>

theorem lock_held_across_load:
  assumes "s = exec E L evs initial_system"
  shows "(\<forall>i < length (threads s). inside_lock (threads s ! i) = (lock_owner s = Some i))
     \<and> (\<forall>i fo. i < length (threads s) \<and> threads s ! i = W_load fo \<longrightarrow> lock_owner s = Some i)
     \<and> (\<forall>i m. i < length (threads s) \<and> threads s ! i = W_set_error m \<longrightarrow> lock_owner s \<noteq> Some i)
     \<and> (\<forall>path. (check_initialization s path = Blocked)
           = (path \<notin> set exempt_paths \<and> lock_owner s \<noteq> None))"
proof -
  have inv: "lock_inv s"
    unfolding assms by (intro lock_inv_exec lock_inv_initial)
  then have own: "\<forall>i < length (threads s). inside_lock (threads s ! i) = (lock_owner s = Some i)"
    by (simp add: lock_inv_def)
  have "\<forall>i fo. i < length (threads s) \<and> threads s ! i = W_load fo \<longrightarrow> lock_owner s = Some i"
  proof (intro allI impI)
    fix i fo
    assume a: "i < length (threads s) \<and> threads s ! i = W_load fo"
    with own have "inside_lock (W_load fo) = (lock_owner s = Some i)" by auto
    then show "lock_owner s = Some i" by simp
  qed
  moreover
  have "\<forall>i m. i < length (threads s) \<and> threads s ! i = W_set_error m \<longrightarrow> lock_owner s \<noteq> Some i"
  proof (intro allI impI)
    fix i m
    assume a: "i < length (threads s) \<and> threads s ! i = W_set_error m"
    with own have "inside_lock (W_set_error m) = (lock_owner s = Some i)" by auto
    then show "lock_owner s \<noteq> Some i" by simp
  qed
  ultimately show ?thesis using own by (simp add: blocked_iff)
qed

theorem lock_held_across_load_witness:
  "inside_lock (threads (exec bare_environ first_load_only loading_run initial_system) ! 0)
     = (lock_owner (exec bare_environ first_load_only loading_run initial_system) = Some 0)
   \<and> threads (exec bare_environ first_load_only loading_run initial_system) = [W_load False]
   \<and> lock_owner (exec bare_environ first_load_only loading_run initial_system) = Some 0
   \<and> (check_initialization (exec bare_environ first_load_only loading_run initial_system)
         ''/voices'' = Blocked)
     = (''/voices'' \<notin> set exempt_paths
        \<and> lock_owner (exec bare_environ first_load_only loading_run initial_system) \<noteq> None)"
  using lock_held_across_load [of "exec bare_environ first_load_only loading_run initial_system"
      bare_environ first_load_only loading_run]
  by (simp add: loading_run_eq)

text \<open>
  Claim C2, as the specification words it, fails: the worker that is about to call the
  loader owns the lock, and a request to a gated path waits for it; and after a load that
  raised, the worker writes the error message without owning the lock.
\<close>

theorem lock_held_across_load_counterexample:
  "threads (exec bare_environ first_load_only loading_run initial_system) = [W_load False]
   \<and> lock_owner (exec bare_environ first_load_only loading_run initial_system) = Some 0
   \<and> check_initialization (exec bare_environ first_load_only loading_run initial_system)
        ''/tts/synthesize'' = Blocked
   \<and> threads (exec bare_environ (\<lambda>i fo. Raises ''boom'') raising_run initial_system)
        = [W_set_error ''boom'']
   \<and> lock_owner (exec bare_environ (\<lambda>i fo. Raises ''boom'') raising_run initial_system) = None
   \<and> initialization_error (globs (exec bare_environ (\<lambda>i fo. Raises ''boom'')
        (raising_run @ [Work 0]) initial_system)) = Some ''boom''"
  by (simp add: loading_run_eq blocked_iff exempt_paths_def)
     (simp add: raising_run_def initial_system_def startup_event_def worker_step_def)

section \<open>The order of the phases\<close>

lemma single_inv_initial: "single_inv initial_system"
  by (simp add: single_inv_def initial_system_def initial_globals_def)

lemma single_startup:
  "single_inv s \<Longrightarrow> threads s = [] \<Longrightarrow>
   single_inv (startup_event s) \<and> phase_of s = Uninitialized
     \<and> phase_of (startup_event s) = Loading \<and> length (threads (startup_event s)) = 1"
  by (simp add: single_inv_def startup_event_def phase_of_def)

text \<open>
  One action of the only worker keeps the invariant and either keeps the phase or advances
  it.
\<close>

lemma single_worker:
  assumes "single_inv s"
  shows "single_inv (worker_step E L i s)
     \<and> length (threads (worker_step E L i s)) = length (threads s)
     \<and> (phase_of (worker_step E L i s) = phase_of s
        \<or> advances (phase_of s) (phase_of (worker_step E L i s)))"
proof (cases "i < length (threads s)")
  case False
  then show ?thesis using assms by (simp add: worker_step_def)
next
  case True
  with assms obtain pc where t: "threads s = [pc]" and i: "i = 0"
    by (cases "threads s") (auto simp: single_inv_def)
  show ?thesis
    using assms t i
    by (cases pc)
       (auto simp: single_inv_def worker_step_def phase_of_def split: load_outcome.splits)
qed

lemma single_step:
  assumes "single_inv s" and "length (threads s) + count_list (e # es) Startup \<le> 1"
  shows "single_inv (step E L e s)
     \<and> length (threads (step E L e s)) + count_list es Startup \<le> 1
     \<and> (phase_of (step E L e s) = phase_of s
        \<or> advances (phase_of s) (phase_of (step E L e s)))"
proof (cases e)
  case Startup
  with assms have "threads s = []" by simp
  with assms Startup show ?thesis using single_startup [of s] by simp
next
  case (Work i)
  with assms show ?thesis using single_worker [of s E L i] by simp
next
  case (Get path)
  with assms show ?thesis by simp
qed

lemma states_nonempty: "states E L evs s \<noteq> []"
  by (cases evs) simp_all

lemma hd_states: "hd (states E L evs s) = s"
  by (cases evs) simp_all

lemma remdups_adj_hd: "xs \<noteq> [] \<Longrightarrow> hd (remdups_adj xs) = hd xs"
  by (cases xs rule: remdups_adj.cases) auto

lemma chain_Cons:
  "chain ps \<Longrightarrow> ps \<noteq> [] \<Longrightarrow> advances p (hd ps) \<Longrightarrow> chain (p # ps)"
  by (cases ps) simp_all

lemma chain_states:
  "single_inv s \<Longrightarrow> length (threads s) + count_list evs Startup \<le> 1 \<Longrightarrow>
   chain (remdups_adj (map phase_of (states E L evs s)))"
proof (induction evs arbitrary: s)
  case Nil
  then show ?case by simp
next
  case (Cons e es)
  let ?s' = "step E L e s"
  let ?ps = "map phase_of (states E L es ?s')"
  have ne: "?ps \<noteq> []" by (simp add: states_nonempty)
  have hd: "hd ?ps = phase_of ?s'" by (simp add: hd_map states_nonempty hd_states)
  have one: "single_inv ?s' \<and> length (threads ?s') + count_list es Startup \<le> 1
      \<and> (phase_of ?s' = phase_of s \<or> advances (phase_of s) (phase_of ?s'))"
    using Cons.prems by (rule single_step)
  then have IH: "chain (remdups_adj ?ps)" using Cons.IH by blast
  show ?case
  proof (cases "phase_of ?s' = phase_of s")
    case True
    have "remdups_adj (phase_of s # ?ps) = remdups_adj ?ps"
      using ne hd True by (cases ?ps) auto
    then show ?thesis using IH by simp
  next
    case False
    with one have adv: "advances (phase_of s) (phase_of ?s')" by blast
    have "remdups_adj (phase_of s # ?ps) = phase_of s # remdups_adj ?ps"
      using ne hd False by (cases ?ps) auto
    moreover have "chain (phase_of s # remdups_adj ?ps)"
      using IH ne hd adv by (intro chain_Cons) (simp_all add: remdups_adj_hd)
    ultimately show ?thesis by simp
  qed
qed

lemma chain_from_Uninitialized:
  assumes c: "chain ps" and ne: "ps \<noteq> []" and h: "hd ps = Uninitialized"
  shows "prefix ps [Uninitialized, Loading, Ready] \<or> prefix ps [Uninitialized, Loading, Failed]"
proof -
  from ne h obtain qs where ps: "ps = Uninitialized # qs" by (cases ps) auto
  show ?thesis
  proof (cases qs)
    case Nil
    with ps show ?thesis by simp
  next
    case (Cons q rs)
    with c ps have q: "q = Loading" and c2: "chain (Loading # rs)"
      by (cases q; simp)+
    show ?thesis
    proof (cases rs)
      case Nil
      with ps Cons q show ?thesis by simp
    next
      case (Cons r ts)
      with c2 have r: "r = Ready \<or> r = Failed" and c3: "chain (r # ts)"
        by (cases r; simp)+
      have "ts = []" using c3 r by (cases ts) auto
      with ps \<open>qs = q # rs\<close> q Cons r show ?thesis by auto
    qed
  qed
qed

text \<open>
  Claim C9, as the code has it. In every execution in which \<open>startup_event\<close> runs at most
  once (the startup hook of the application), under every interleaving of the worker's actions with
  requests, whatever the loader does: the phases the execution passes through, with
  repetitions dropped, are a prefix of \<open>Uninitialized, Loading, Ready\<close> or of
  \<open>Uninitialized, Loading, Failed\<close>. So no action of the worker and no request moves the
  phase backwards, and a terminal phase is entered at most once.
\<close>

theorem phase_monotonic:
  assumes "count_list evs Startup \<le> 1"
  shows "prefix (remdups_adj (map phase_of (states E L evs initial_system)))
           [Uninitialized, Loading, Ready]
       \<or> prefix (remdups_adj (map phase_of (states E L evs initial_system)))
           [Uninitialized, Loading, Failed]"
proof -
  let ?ps = "remdups_adj (map phase_of (states E L evs initial_system))"
  have "chain ?ps"
    using assms by (intro chain_states single_inv_initial) (simp add: initial_system_def)
  moreover have "?ps \<noteq> []" by (simp add: states_nonempty)
  moreover have "hd ?ps = Uninitialized"
    by (simp add: remdups_adj_hd states_nonempty hd_map hd_states)
       (simp add: phase_of_def initial_system_def initial_globals_def)
  ultimately show ?thesis by (rule chain_from_Uninitialized)
qed

theorem phase_monotonic_witness:
  "count_list observed_run Startup \<le> 1
   \<and> (prefix (remdups_adj (map phase_of
          (states bare_environ first_load_only observed_run initial_system)))
           [Uninitialized, Loading, Ready]
       \<or> prefix (remdups_adj (map phase_of
          (states bare_environ first_load_only observed_run initial_system)))
           [Uninitialized, Loading, Failed])"
proof -
  have one: "count_list observed_run Startup \<le> 1"
    by (simp add: observed_run_def)
  show ?thesis
    using one phase_monotonic [OF one, of bare_environ first_load_only] by simp
qed

text \<open>
  Claim C9, as the specification words it, fails: after two calls of \<open>startup_event\<close>, when
  the first worker's load raises and the second worker's load succeeds, the phase goes
  from \<open>Failed\<close> to \<open>Ready\<close>, so a terminal phase is entered twice and the phases are not a
  prefix of either allowed order.
\<close>

theorem phase_monotonic_counterexample:
  "remdups_adj (map phase_of (states bare_environ first_load_fails double_run initial_system))
     = [Uninitialized, Loading, Failed, Ready]
   \<and> \<not> prefix
        (remdups_adj (map phase_of
           (states bare_environ first_load_fails double_run initial_system)))
        [Uninitialized, Loading, Ready]
   \<and> \<not> prefix
        (remdups_adj (map phase_of
           (states bare_environ first_load_fails double_run initial_system)))
        [Uninitialized, Loading, Failed]"
  by (simp add: double_run_def initial_system_def initial_globals_def
      startup_event_def worker_step_def first_load_fails_def phase_of_def full_registry_def)

text \<open>The run with requests in between passes through exactly these phases.\<close>

lemma observed_run_phases:
  "remdups_adj (map phase_of (states bare_environ first_load_only observed_run initial_system))
     = [Uninitialized, Loading, Ready]"
  by (simp add: observed_run_def initial_system_def initial_globals_def
      startup_event_def worker_step_def first_load_only_def phase_of_def full_registry_def)

section \<open>Further properties of the probes and the gate\<close>

text \<open>\<open>/health\<close> answers 200 in every state.\<close>

lemma health_always_200: "fst (health_check g r) = 200"
  by (simp add: health_check_def split: option.splits)

text \<open>
  A stored message that is not empty is returned as it is by both probes: no substitution
  and no truncation happen there.
\<close>

lemma probes_verbatim:
  assumes "initialization_error g = Some e" and "e \<noteq> []"
  shows "health_check g r = (200, [(''status'', JStr ''error''), (''error'', JStr e)])
       \<and> readiness_check g = (503, [(''status'', JStr ''error''), (''error'', JStr e)])"
  using assms by (simp add: health_check_def readiness_check_def)

lemma probes_verbatim_long:
  "health_check (globs (failed_system (long_message @ weights_message))) r
     = (200, [(''status'', JStr ''error''), (''error'', JStr (long_message @ weights_message))])
   \<and> readiness_check (globs (failed_system (long_message @ weights_message)))
     = (503, [(''status'', JStr ''error''), (''error'', JStr (long_message @ weights_message))])"
  using probes_verbatim [of "globs (failed_system (long_message @ weights_message))"
      "long_message @ weights_message" r]
  by (simp add: failed_system_eq long_message_nonempty)

lemma single_inv_exec:
  "single_inv s \<Longrightarrow> length (threads s) + count_list evs Startup \<le> 1 \<Longrightarrow>
   single_inv (exec E L evs s)"
proof (induction evs arbitrary: s)
  case Nil
  then show ?case by simp
next
  case (Cons e es)
  from Cons.prems have "single_inv (step E L e s)
     \<and> length (threads (step E L e s)) + count_list es Startup \<le> 1
     \<and> (phase_of (step E L e s) = phase_of s
        \<or> advances (phase_of s) (phase_of (step E L e s)))"
    by (rule single_step)
  with Cons.IH show ?case by simp
qed

lemma single_inv_flags:
  "single_inv s \<Longrightarrow> initialized (globs s) \<Longrightarrow> initialization_error (globs s) = None"
  by (cases "threads s"; cases "hd (threads s)") (auto simp: single_inv_def)

text \<open>
  With one start, \<open>/ready\<close> answers 200 exactly in phase \<open>Ready\<close>, in every state of every
  execution.
\<close>

lemma readiness_exact:
  assumes "count_list evs Startup \<le> 1"
  shows "(fst (readiness_check (globs (exec E L evs initial_system))) = 200)
       = (phase_of (exec E L evs initial_system) = Ready)"
proof -
  have "single_inv (exec E L evs initial_system)"
    using assms by (intro single_inv_exec single_inv_initial) (simp add: initial_system_def)
  then have "initialized (globs (exec E L evs initial_system)) \<Longrightarrow>
      initialization_error (globs (exec E L evs initial_system)) = None"
    by (rule single_inv_flags)
  then show ?thesis
    by (auto simp: readiness_check_def phase_of_def split: option.splits)
qed

text \<open>
  The gate on a path outside the exempt list, with the lock free: while nothing is
  initialized and no message is stored it answers \<open>Service is still initializing\<close>; once
  \<open>initialized\<close> is set it checks the models and the voices again.
\<close>

lemma gate_still_initializing:
  assumes "path \<notin> set exempt_paths" and "lock_owner s = None"
    and "\<not> initialized (globs s)" and "initialization_error (globs s) = None"
  shows "check_initialization s path = Raise_HTTPException 503 ''Service is still initializing''"
  using assms by (simp add: check_initialization_def)

lemma gate_recheck:
  assumes "path \<notin> set exempt_paths" and "lock_owner s = None" and "initialized (globs s)"
  shows "check_initialization s path =
     (if models (reg s) = [] \<or> voices (reg s) = []
      then Raise_HTTPException 503 ''Model initialization incomplete - service not ready''
      else Call_next)"
  using assms by (simp add: check_initialization_def)

text \<open>
  The worker alone, run to its end: a load that raises stores the message as it is, and a
  load that returns all three collections non-empty sets both flags.
\<close>

lemma worker_stores_message:
  assumes "L 0 (force_online E) = Raises m"
  shows "globs (exec E L single_run initial_system) =
           \<lparr>MODELS_LOADED = False, initialized = False, initialization_error = Some m\<rparr>
       \<and> phase_of (exec E L single_run initial_system) = Failed"
  using assms by (simp add: single_run_loader_raises failed_system_eq phase_of_def)

lemma worker_ready:
  assumes "L 0 (force_online E) = Loaded r"
    and "models r \<noteq> []" and "pipelines r \<noteq> []" and "voices r \<noteq> []"
  shows "globs (exec E L single_run initial_system) =
           \<lparr>MODELS_LOADED = True, initialized = True, initialization_error = None\<rparr>
       \<and> phase_of (exec E L single_run initial_system) = Ready"
  using assms by (simp add: single_run_loaded phase_of_def)

end
